theory Spec2Isabelle
  imports Main "HOL-Library.Multiset"
begin

section \<open>Python values, exceptions and text\<close>

text \<open>
  The bot keeps each user's configuration in a Python dict that is read back from a
  JSON file, so a configuration is modelled as what it is at run time: a finite map
  from keys to dynamically typed values. Keys that the program looks up are ASCII
  literals and are written as HOL strings. Text that the program produces is a Python
  \<open>str\<close>, a sequence of Unicode code points: it is modelled as a list of code points,
  because the error message of the generator is Cyrillic and \<open>len\<close> counts code points.
  JSON floats and nested containers are left out of the value type; no property below
  concerns them.
\<close>

datatype pyerr =
  KeyError | TypeError | IndexError | OSError | UnicodeDecodeError | JSONDecodeError

type_synonym pystr = "nat list"

datatype pyval = PyInt int | PyBool bool | PyStr pystr | PyNone

type_synonym pydict = "string \<rightharpoonup> pyval"

text \<open>Truth value testing, as \<open>if v:\<close> and \<open>not v\<close> perform it.\<close>

fun truthy :: "pyval \<Rightarrow> bool" where
  "truthy (PyInt n) = (n \<noteq> 0)"
| "truthy (PyBool b) = b"
| "truthy (PyStr s) = (s \<noteq> [])"
| "truthy PyNone = False"

text \<open>
  The value as an operand of integer arithmetic and comparison with an \<open>int\<close>:
  \<open>bool\<close> is a subclass of \<open>int\<close>; a string or \<open>None\<close> raises \<open>TypeError\<close>.
\<close>

fun as_int :: "pyval \<Rightarrow> pyerr + int" where
  "as_int (PyInt n) = Inr n"
| "as_int (PyBool b) = Inr (if b then 1 else 0)"
| "as_int (PyStr s) = Inl TypeError"
| "as_int PyNone = Inl TypeError"

text \<open>\<open>d.get(k, False)\<close> used as a condition, and \<open>d[k]\<close>.\<close>

definition get_flag :: "pydict \<Rightarrow> string \<Rightarrow> bool" where
  "get_flag d k = (case d k of None \<Rightarrow> False | Some v \<Rightarrow> truthy v)"

definition subscript :: "pydict \<Rightarrow> string \<Rightarrow> pyerr + pyval" where
  "subscript d k = (case d k of None \<Rightarrow> Inl KeyError | Some v \<Rightarrow> Inr v)"

text \<open>The slice \<open>xs[:n]\<close>: a negative bound counts from the end.\<close>

definition slice_to :: "'a list \<Rightarrow> int \<Rightarrow> 'a list" where
  "slice_to xs n =
     (if n < 0 then take (nat (int (length xs) + n)) xs else take (nat n) xs)"

section \<open>The random module\<close>

text \<open>
  The generator of random numbers is an oracle: the list of the raw numbers it will
  deliver, consumed from the front (an exhausted oracle delivers 0). A property that
  holds for every oracle holds for every outcome of the random draws.
  \<open>randbelow n\<close> is \<open>Random._randbelow(n)\<close>, a number below \<open>n\<close>.
\<close>

type_synonym rng = "nat list"

definition randbelow :: "nat \<Rightarrow> rng \<Rightarrow> nat \<times> rng" where
  "randbelow n rng = (case rng of [] \<Rightarrow> (0, []) | r # rs \<Rightarrow> (r mod n, rs))"

text \<open>\<open>random.choice(seq)\<close> is \<open>seq[randbelow(len(seq))]\<close>; an empty sequence raises.\<close>

definition choice :: "'a list \<Rightarrow> rng \<Rightarrow> pyerr + ('a \<times> rng)" where
  "choice seq rng =
     (if seq = [] then Inl IndexError
      else (case randbelow (length seq) rng of (j, rng') \<Rightarrow> Inr (seq ! j, rng')))"

text \<open>
  \<open>random.shuffle(x)\<close>:
  \<^verbatim>\<open>for i in reversed(range(1, len(x))): j = randbelow(i + 1); x[i], x[j] = x[j], x[i]\<close>
\<close>

definition swap :: "'a list \<Rightarrow> nat \<Rightarrow> nat \<Rightarrow> 'a list" where
  "swap xs i j = (xs[i := xs ! j])[j := xs ! i]"

fun shuffle_from :: "nat \<Rightarrow> 'a list \<Rightarrow> rng \<Rightarrow> 'a list \<times> rng" where
  "shuffle_from 0 xs rng = (xs, rng)"
| "shuffle_from (Suc k) xs rng =
     (case randbelow (Suc (Suc k)) rng of
        (j, rng') \<Rightarrow> shuffle_from k (swap xs (Suc k) j) rng')"

definition shuffle :: "'a list \<Rightarrow> rng \<Rightarrow> 'a list \<times> rng" where
  "shuffle xs rng = shuffle_from (length xs - 1) xs rng"

text \<open>The comprehension \<open>[random.choice(pool) for _ in range(k)]\<close>.\<close>

fun choices :: "nat \<Rightarrow> 'a list \<Rightarrow> rng \<Rightarrow> pyerr + ('a list \<times> rng)" where
  "choices 0 pool rng = Inr ([], rng)"
| "choices (Suc k) pool rng =
     (case choice pool rng of
        Inl e \<Rightarrow> Inl e
      | Inr (c, rng') \<Rightarrow>
          (case choices k pool rng' of
             Inl e \<Rightarrow> Inl e
           | Inr (cs, rng'') \<Rightarrow> Inr (c # cs, rng'')))"

section \<open>Character classes\<close>

definition ascii :: "string \<Rightarrow> pystr" where
  "ascii s = map of_char s"

definition ascii_lowercase :: pystr where
  "ascii_lowercase = ascii ''abcdefghijklmnopqrstuvwxyz''"

definition ascii_uppercase :: pystr where
  "ascii_uppercase = ascii ''ABCDEFGHIJKLMNOPQRSTUVWXYZ''"

definition digits :: pystr where
  "digits = ascii ''0123456789''"

text \<open>The symbol set of \<open>main.py\<close>, and that of \<open>telegram_password_bot.py\<close>.\<close>

definition symbols :: pystr where
  "symbols = ascii ''!@#$%^&*()_+-=[]{}|;:,.<>''"

definition symbols_bot :: pystr where
  "symbols_bot = ascii ''!@#$%^&*()_+-=[]{}|;:,.<>?''"

text \<open>
  The message returned when no class is selected, as code points. In Latin letters it
  reads "Oshibka: Vyberite khotya by odin tip simvolov!" (Error: select at least one
  type of characters!).
\<close>

definition error_message :: pystr where
  "error_message =
     [1054, 1096, 1080, 1073, 1082, 1072, 58, 32,
      1042, 1099, 1073, 1077, 1088, 1080, 1090, 1077, 32,
      1093, 1086, 1090, 1103, 32, 1073, 1099, 32,
      1086, 1076, 1080, 1085, 32, 1090, 1080, 1087, 32,
      1089, 1080, 1084, 1074, 1086, 1083, 1086, 1074, 33]"

section \<open>The password generator\<close>

text \<open>
  The state of the four \<open>if\<close> statements is the triple of \<open>character_pool\<close>,
  \<open>guaranteed_chars\<close> and the oracle. Each statement has the same body:
  \<^verbatim>\<open>character_pool.extend(cls); guaranteed_chars.append(random.choice(cls))\<close>
\<close>

type_synonym gen_state = "pystr \<times> pystr \<times> rng"

definition seed_class :: "bool \<Rightarrow> pystr \<Rightarrow> gen_state \<Rightarrow> pyerr + gen_state" where
  "seed_class enabled cls st =
     (case st of (character_pool, guaranteed_chars, rng) \<Rightarrow>
        if enabled then
          (case choice cls rng of
             Inl e \<Rightarrow> Inl e
           | Inr (c, rng') \<Rightarrow> Inr (character_pool @ cls, guaranteed_chars @ [c], rng'))
        else Inr st)"

text \<open>
  The four statements in the order of the source: lower, upper, digits, symbols. The
  conditions are passed in that order.
\<close>

definition seed_classes ::
  "bool \<Rightarrow> bool \<Rightarrow> bool \<Rightarrow> bool \<Rightarrow> pystr \<Rightarrow> rng \<Rightarrow> pyerr + gen_state" where
  "seed_classes lo up di sy syms rng =
     (case seed_class lo ascii_lowercase ([], [], rng) of
        Inl e \<Rightarrow> Inl e
      | Inr st1 \<Rightarrow>
     (case seed_class up ascii_uppercase st1 of
        Inl e \<Rightarrow> Inl e
      | Inr st2 \<Rightarrow>
     (case seed_class di digits st2 of
        Inl e \<Rightarrow> Inl e
      | Inr st3 \<Rightarrow> seed_class sy syms st3)))"

text \<open>
  \<open>generate_password\<close> of \<open>main.py\<close>. It reads \<open>settings["length"]\<close> first (a missing
  key raises), the flags with \<open>settings.get(key, False)\<close>, returns the message when the
  pool is empty, truncates the shuffled guaranteed characters when the length is below
  their number, and otherwise fills up from the pool and shuffles.
\<close>

definition generate_password :: "pydict \<Rightarrow> rng \<Rightarrow> pyerr + (pystr \<times> rng)" where
  "generate_password settings rng =
     (case subscript settings ''length'' of
        Inl e \<Rightarrow> Inl e
      | Inr len \<Rightarrow>
     (case seed_classes (get_flag settings ''use_lower'') (get_flag settings ''use_upper'')
             (get_flag settings ''use_digits'') (get_flag settings ''use_symbols'')
             symbols rng of
        Inl e \<Rightarrow> Inl e
      | Inr (character_pool, guaranteed_chars, rng1) \<Rightarrow>
          if character_pool = [] then Inr (error_message, rng1)
          else
            (case as_int len of
               Inl e \<Rightarrow> Inl e
             | Inr n \<Rightarrow>
                 if n < int (length guaranteed_chars) then
                   (case shuffle guaranteed_chars rng1 of
                      (shuffled, rng2) \<Rightarrow> Inr (slice_to shuffled n, rng2))
                 else
                   (case choices (nat (n - int (length guaranteed_chars)))
                           character_pool rng1 of
                      Inl e \<Rightarrow> Inl e
                    | Inr (fill, rng2) \<Rightarrow>
                        Inr (shuffle (guaranteed_chars @ fill) rng2)))))"

text \<open>
  \<open>generate_password\<close> of \<open>telegram_password_bot.py\<close>. The flags are read with
  \<open>settings[key]\<close>, in the order lower, upper, digits, symbols, each read before the
  body of its \<open>if\<close>; the symbol set has one more character; there is no truncation.
\<close>

definition generate_password_bot :: "pydict \<Rightarrow> rng \<Rightarrow> pyerr + (pystr \<times> rng)" where
  "generate_password_bot settings rng =
     (case subscript settings ''length'' of
        Inl e \<Rightarrow> Inl e
      | Inr len \<Rightarrow>
     (case subscript settings ''use_lower'' of
        Inl e \<Rightarrow> Inl e
      | Inr lo \<Rightarrow>
     (case seed_class (truthy lo) ascii_lowercase ([], [], rng) of
        Inl e \<Rightarrow> Inl e
      | Inr st1 \<Rightarrow>
     (case subscript settings ''use_upper'' of
        Inl e \<Rightarrow> Inl e
      | Inr up \<Rightarrow>
     (case seed_class (truthy up) ascii_uppercase st1 of
        Inl e \<Rightarrow> Inl e
      | Inr st2 \<Rightarrow>
     (case subscript settings ''use_digits'' of
        Inl e \<Rightarrow> Inl e
      | Inr di \<Rightarrow>
     (case seed_class (truthy di) digits st2 of
        Inl e \<Rightarrow> Inl e
      | Inr st3 \<Rightarrow>
     (case subscript settings ''use_symbols'' of
        Inl e \<Rightarrow> Inl e
      | Inr sy \<Rightarrow>
     (case seed_class (truthy sy) symbols_bot st3 of
        Inl e \<Rightarrow> Inl e
      | Inr (character_pool, guaranteed_chars, rng1) \<Rightarrow>
          if character_pool = [] then Inr (error_message, rng1)
          else
            (case as_int len of
               Inl e \<Rightarrow> Inl e
             | Inr n \<Rightarrow>
                 (case choices (nat (n - int (length guaranteed_chars)))
                         character_pool rng1 of
                    Inl e \<Rightarrow> Inl e
                  | Inr (fill, rng2) \<Rightarrow>
                      Inr (shuffle (guaranteed_chars @ fill) rng2))))))))))))"

section \<open>The settings table\<close>

text \<open>
  \<open>user_settings\<close> maps \<open>str(user_id)\<close> to the user's configuration. Every configuration
  is an object of its own (the JSON decoder and \<open>get_default_settings\<close> create a fresh
  dict each time), so updating one in place is an update of the table at its key.
\<close>

type_synonym table = "string \<rightharpoonup> pydict"

definition get_default_settings :: pydict where
  "get_default_settings =
     [''length'' \<mapsto> PyInt 16,
      ''use_upper'' \<mapsto> PyBool True,
      ''use_lower'' \<mapsto> PyBool True,
      ''use_digits'' \<mapsto> PyBool True,
      ''use_symbols'' \<mapsto> PyBool True]"

text \<open>\<open>str\<close> of an integer: its decimal digits, with a sign when negative.\<close>

fun str_nat :: "nat \<Rightarrow> string" where
  "str_nat n =
     (if n < 10 then [char_of (48 + n)]
      else str_nat (n div 10) @ [char_of (48 + n mod 10)])"

declare str_nat.simps [simp del]

definition str :: "int \<Rightarrow> string" where
  "str i = (if i < 0 then CHR ''-'' # str_nat (nat (- i)) else str_nat (nat i))"

text \<open>The result is the configuration and the table, which has gained it if it was new.\<close>

definition get_user_config :: "int \<Rightarrow> table \<Rightarrow> pydict \<times> table" where
  "get_user_config user_id user_settings =
     (case user_settings (str user_id) of
        None \<Rightarrow>
          (get_default_settings, user_settings(str user_id \<mapsto> get_default_settings))
      | Some config \<Rightarrow> (config, user_settings))"

section \<open>Loading and saving the table\<close>

text \<open>
  The file system and the JSON library are the environment: what \<open>exists()\<close> answers,
  whether \<open>open\<close> raises, and what \<open>json.load\<close> returns or raises. A \<open>try\<close> statement
  passes on every exception that its \<open>except\<close> clause does not name.
\<close>

datatype log_record = JsonDecodeErrorLogged | WriteErrorLogged

record settings_file =
  file_exists :: bool
  open_result :: "pyerr option"
  json_load_result :: "pyerr + table"

definition load_user_settings :: "settings_file \<Rightarrow> (pyerr + table) \<times> log_record list" where
  "load_user_settings f =
     (if \<not> file_exists f then (Inr Map.empty, [])
      else
        (case (case open_result f of
                 Some e \<Rightarrow> Inl e
               | None \<Rightarrow> json_load_result f) of
           Inr settings \<Rightarrow> (Inr settings, [])
         | Inl e \<Rightarrow>
             if e = JSONDecodeError then (Inr Map.empty, [JsonDecodeErrorLogged])
             else (Inl e, [])))"

text \<open>
  \<open>save_user_settings\<close> names \<open>IOError\<close>, which is \<open>OSError\<close>. The first component of
  the result is the table written to the file, if the write succeeded.
\<close>

definition save_user_settings ::
  "table \<Rightarrow> pyerr option \<Rightarrow> (pyerr + table option) \<times> log_record list" where
  "save_user_settings settings write_result =
     (case write_result of
        None \<Rightarrow> (Inr (Some settings), [])
      | Some e \<Rightarrow>
          if e = OSError then (Inr None, [WriteErrorLogged]) else (Inl e, []))"

section \<open>The menu and the button handler\<close>

text \<open>
  The state of the running bot: the global table, the random oracle, how the next write
  of the settings file ends, the file as last written, the log, and the messages handed
  to the chat transport. The transport itself is not modelled: a message is recorded
  with the data it renders.
\<close>

datatype menu_text = Welcome | SettingsChanged | NewSettings

datatype message =
  PasswordMessage pystr
| Menu menu_text bool bool bool bool pyval

record bot =
  user_settings :: table
  random_state :: rng
  write_result :: "pyerr option"
  written :: "table option"
  logged :: "log_record list"
  outbox :: "message list"

definition LEN_INCR :: string where "LEN_INCR = ''len_incr''"
definition LEN_DECR :: string where "LEN_DECR = ''len_decr''"
definition LEN_INFO :: string where "LEN_INFO = ''len_info''"
definition TOGGLE_UPPER :: string where "TOGGLE_UPPER = ''toggle_upper''"
definition TOGGLE_LOWER :: string where "TOGGLE_LOWER = ''toggle_lower''"
definition TOGGLE_DIGITS :: string where "TOGGLE_DIGITS = ''toggle_digits''"
definition TOGGLE_SYMBOLS :: string where "TOGGLE_SYMBOLS = ''toggle_symbols''"
definition GENERATE :: string where "GENERATE = ''generate''"

text \<open>
  \<open>build_menu\<close> reads the four flags and then the length with \<open>config[key]\<close> and
  renders them: the four icons (upper, lower, digits, symbols) and the length label.
  The user of the update is the user who pressed the button.
\<close>

definition build_menu :: "int \<Rightarrow> menu_text \<Rightarrow> bot \<Rightarrow> (pyerr + unit) \<times> bot" where
  "build_menu user_id message_text b =
     (case get_user_config user_id (user_settings b) of
        (config, tbl) \<Rightarrow>
     (case subscript config ''use_upper'' of
        Inl e \<Rightarrow> (Inl e, b\<lparr>user_settings := tbl\<rparr>)
      | Inr up \<Rightarrow>
     (case subscript config ''use_lower'' of
        Inl e \<Rightarrow> (Inl e, b\<lparr>user_settings := tbl\<rparr>)
      | Inr lo \<Rightarrow>
     (case subscript config ''use_digits'' of
        Inl e \<Rightarrow> (Inl e, b\<lparr>user_settings := tbl\<rparr>)
      | Inr di \<Rightarrow>
     (case subscript config ''use_symbols'' of
        Inl e \<Rightarrow> (Inl e, b\<lparr>user_settings := tbl\<rparr>)
      | Inr sy \<Rightarrow>
     (case subscript config ''length'' of
        Inl e \<Rightarrow> (Inl e, b\<lparr>user_settings := tbl\<rparr>)
      | Inr len \<Rightarrow>
          (Inr (),
           b\<lparr>user_settings := tbl,
             outbox := outbox b @
               [Menu message_text (truthy up) (truthy lo) (truthy di) (truthy sy) len]\<rparr>)))))))"

text \<open>\<open>start_command\<close> greets the user and shows the menu.\<close>

definition start_command :: "int \<Rightarrow> bot \<Rightarrow> (pyerr + unit) \<times> bot" where
  "start_command user_id b = build_menu user_id Welcome b"

text \<open>
  The end of \<open>button_callback\<close> when \<open>needs_update\<close> is true: save the table, then
  show the menu again.
\<close>

definition save_and_show :: "int \<Rightarrow> menu_text \<Rightarrow> bot \<Rightarrow> (pyerr + unit) \<times> bot" where
  "save_and_show user_id message_text b =
     (case save_user_settings (user_settings b) (write_result b) of
        (Inl e, records) \<Rightarrow> (Inl e, b\<lparr>logged := logged b @ records\<rparr>)
      | (Inr None, records) \<Rightarrow>
          build_menu user_id message_text (b\<lparr>logged := logged b @ records\<rparr>)
      | (Inr (Some t), records) \<Rightarrow>
          build_menu user_id message_text (b\<lparr>written := Some t, logged := logged b @ records\<rparr>))"

text \<open>\<open>config[key] = not config[key]\<close> on the configuration of \<open>user_id\<close>.\<close>

definition toggle :: "string \<Rightarrow> int \<Rightarrow> pydict \<Rightarrow> bot \<Rightarrow> (pyerr + unit) \<times> bot" where
  "toggle key user_id config b =
     (case subscript config key of
        Inl e \<Rightarrow> (Inl e, b)
      | Inr v \<Rightarrow>
          save_and_show user_id SettingsChanged
            (b\<lparr>user_settings :=
                 (user_settings b)(str user_id \<mapsto> config(key \<mapsto> PyBool (\<not> truthy v)))\<rparr>))"

text \<open>
  Where a call of \<open>generate_password\<close> that raises leaves the random generator. A
  missing length raises before any draw; a length that is no number raises in the
  comparison \<open>length < len(guaranteed_chars)\<close>, after the draws that seeded the
  classes.
\<close>

definition rng_after_raise :: "pydict \<Rightarrow> rng \<Rightarrow> rng" where
  "rng_after_raise settings rng =
     (case subscript settings ''length'' of
        Inl e \<Rightarrow> rng
      | Inr len \<Rightarrow>
     (case seed_classes (get_flag settings ''use_lower'') (get_flag settings ''use_upper'')
             (get_flag settings ''use_digits'') (get_flag settings ''use_symbols'')
             symbols rng of
        Inl e \<Rightarrow> rng
      | Inr (character_pool, guaranteed_chars, rng1) \<Rightarrow> rng1))"

text \<open>
  \<open>button_callback\<close> of \<open>main.py\<close>, for the button \<open>action\<close> pressed by \<open>user_id\<close>. The
  result is \<open>Inl\<close> the exception that left the handler, or \<open>Inr ()\<close>, and the state as the
  handler left it.
\<close>

definition button_callback :: "string \<Rightarrow> int \<Rightarrow> bot \<Rightarrow> (pyerr + unit) \<times> bot" where
  "button_callback action user_id b0 =
     (case get_user_config user_id (user_settings b0) of
        (config, tbl) \<Rightarrow>
          let b = b0\<lparr>user_settings := tbl\<rparr> in
          if action = LEN_INCR then
            (case subscript config ''length'' of
               Inl e \<Rightarrow> (Inl e, b)
             | Inr v \<Rightarrow>
                 (case as_int v of
                    Inl e \<Rightarrow> (Inl e, b)
                  | Inr n \<Rightarrow>
                      save_and_show user_id SettingsChanged
                        (b\<lparr>user_settings :=
                             tbl(str user_id \<mapsto>
                               config(''length'' \<mapsto> PyInt (min 64 (n + 1))))\<rparr>)))
          else if action = LEN_DECR then
            (case subscript config ''length'' of
               Inl e \<Rightarrow> (Inl e, b)
             | Inr v \<Rightarrow>
                 (case as_int v of
                    Inl e \<Rightarrow> (Inl e, b)
                  | Inr n \<Rightarrow>
                      save_and_show user_id SettingsChanged
                        (b\<lparr>user_settings :=
                             tbl(str user_id \<mapsto>
                               config(''length'' \<mapsto> PyInt (max 4 (n - 1))))\<rparr>)))
          else if action = TOGGLE_UPPER then toggle ''use_upper'' user_id config b
          else if action = TOGGLE_LOWER then toggle ''use_lower'' user_id config b
          else if action = TOGGLE_DIGITS then toggle ''use_digits'' user_id config b
          else if action = TOGGLE_SYMBOLS then toggle ''use_symbols'' user_id config b
          else if action = GENERATE then
            (case generate_password config (random_state b) of
               Inl e \<Rightarrow>
                 (Inl e, b\<lparr>random_state := rng_after_raise config (random_state b)\<rparr>)
             | Inr (password, rng') \<Rightarrow>
                 save_and_show user_id NewSettings
                   (b\<lparr>random_state := rng',
                      outbox := outbox b @ [PasswordMessage password]\<rparr>))
          else (Inr (), b))"

text \<open>
  A sequence of button presses by one user. An exception that leaves a handler is
  caught by the dispatcher of the framework, and the next update finds the state as the
  handler left it.
\<close>

fun press :: "string list \<Rightarrow> int \<Rightarrow> bot \<Rightarrow> bot" where
  "press [] user_id b = b"
| "press (action # actions) user_id b =
     press actions user_id (snd (button_callback action user_id b))"

section \<open>Notions used to state the properties\<close>

text \<open>
  The classes that four conditions enable, in the order in which the generator visits
  them, for a given symbol set.
\<close>

definition classes_of :: "bool \<Rightarrow> bool \<Rightarrow> bool \<Rightarrow> bool \<Rightarrow> pystr \<Rightarrow> pystr list" where
  "classes_of lo up di sy syms =
     (if lo then [ascii_lowercase] else []) @
     (if up then [ascii_uppercase] else []) @
     (if di then [digits] else []) @
     (if sy then [syms] else [])"

text \<open>
  The enabled classes of a configuration: a flag is on when its value is true, and a
  missing flag is off. For \<open>main.py\<close> and for \<open>telegram_password_bot.py\<close>.
\<close>

definition enabled_classes :: "pydict \<Rightarrow> pystr list" where
  "enabled_classes settings =
     classes_of (get_flag settings ''use_lower'') (get_flag settings ''use_upper'')
       (get_flag settings ''use_digits'') (get_flag settings ''use_symbols'') symbols"

definition enabled_classes_bot :: "pydict \<Rightarrow> pystr list" where
  "enabled_classes_bot settings =
     classes_of (get_flag settings ''use_lower'') (get_flag settings ''use_upper'')
       (get_flag settings ''use_digits'') (get_flag settings ''use_symbols'') symbols_bot"

text \<open>The keys of the four flags.\<close>

definition flag_keys :: "string set" where
  "flag_keys = {''use_lower'', ''use_upper'', ''use_digits'', ''use_symbols''}"

text \<open>The length stored for a user is an integer between 4 and 64.\<close>

definition length_in_range :: "int \<Rightarrow> bot \<Rightarrow> bool" where
  "length_in_range user_id b =
     (case user_settings b (str user_id) of
        None \<Rightarrow> False
      | Some config \<Rightarrow>
          (case config ''length'' of
             Some (PyInt n) \<Rightarrow> 4 \<le> n \<and> n \<le> 64
           | _ \<Rightarrow> False))"

text \<open>The length stored for a user, if the user and the key are there.\<close>

definition stored_length :: "int \<Rightarrow> bot \<Rightarrow> pyval option" where
  "stored_length user_id b =
     (case user_settings b (str user_id) of
        None \<Rightarrow> None
      | Some config \<Rightarrow> config ''length'')"

text \<open>
  A bot that knows one user, whose settings file can be written, and whose random
  generator will deliver 7, 3, 5, 11, 2, 1, 1.
\<close>

definition bot_with :: "int \<Rightarrow> pydict \<Rightarrow> bot" where
  "bot_with user_id config =
     \<lparr>user_settings = [str user_id \<mapsto> config], random_state = [7, 3, 5, 11, 2, 1, 1],
      write_result = None, written = None, logged = [], outbox = []\<rparr>"

section \<open>Properties of the random module\<close>

lemma randbelow_less: "0 < n \<Longrightarrow> fst (randbelow n rng) < n"
  by (simp add: randbelow_def split: list.splits)

lemma choice_ok:
  "seq \<noteq> [] \<Longrightarrow> \<exists>c rng'. choice seq rng = Inr (c, rng') \<and> c \<in> set seq"
  using randbelow_less [of "length seq" rng]
  by (auto simp: choice_def split: prod.splits)

lemma mset_swap_list:
  "i < length xs \<Longrightarrow> j < length xs \<Longrightarrow> mset (swap xs i j) = mset xs"
  unfolding swap_def by (rule mset_swap)

lemma shuffle_from_mset:
  "k < length xs \<Longrightarrow> mset (fst (shuffle_from k xs rng)) = mset xs"
proof (induction k arbitrary: xs rng)
  case 0
  then show ?case by simp
next
  case (Suc k)
  obtain j rng' where r: "randbelow (Suc (Suc k)) rng = (j, rng')"
    by (cases "randbelow (Suc (Suc k)) rng")
  have "j < Suc (Suc k)"
    using randbelow_less [of "Suc (Suc k)" rng] r by simp
  with Suc.prems have j: "j < length xs" by simp
  have len: "length (swap xs (Suc k) j) = length xs"
    by (simp add: swap_def)
  have "mset (fst (shuffle_from k (swap xs (Suc k) j) rng')) = mset (swap xs (Suc k) j)"
    using Suc.IH [of "swap xs (Suc k) j" rng'] Suc.prems len by simp
  then show ?case
    using r mset_swap_list [OF Suc.prems j] by simp
qed

lemma shuffle_mset: "mset (fst (shuffle xs rng)) = mset xs"
proof (cases xs)
  case Nil
  then show ?thesis by (simp add: shuffle_def)
next
  case (Cons x ys)
  then show ?thesis
    unfolding shuffle_def by (intro shuffle_from_mset) simp
qed

lemma choices_ok:
  "pool \<noteq> [] \<Longrightarrow>
   \<exists>cs rng'. choices k pool rng = Inr (cs, rng') \<and> length cs = k \<and> set cs \<subseteq> set pool"
proof (induction k arbitrary: rng)
  case 0
  then show ?case by simp
next
  case (Suc k)
  from choice_ok [OF Suc.prems, of rng]
  obtain c r1 where c: "choice pool rng = Inr (c, r1)" "c \<in> set pool" by blast
  from Suc.IH [OF Suc.prems, of r1]
  obtain cs r2 where cs: "choices k pool r1 = Inr (cs, r2)" "length cs = k" "set cs \<subseteq> set pool"
    by blast
  show ?case using c cs by simp
qed

lemma shuffle_set: "shuffle xs rng = (ys, rng') \<Longrightarrow> set ys = set xs"
proof -
  assume "shuffle xs rng = (ys, rng')"
  then have "mset ys = mset xs"
    using shuffle_mset [of xs rng] by simp
  then show ?thesis by (rule mset_eq_setD)
qed

section \<open>Properties of the seeding of the classes\<close>

lemma classes_nonempty:
  "ascii_lowercase \<noteq> []" "ascii_uppercase \<noteq> []" "digits \<noteq> []"
  "symbols \<noteq> []" "symbols_bot \<noteq> []"
  by (simp_all add: ascii_lowercase_def ascii_uppercase_def digits_def symbols_def
      symbols_bot_def ascii_def)

lemma seed_class_ok:
  assumes "cls \<noteq> []" and "list_all2 (\<lambda>c cls. c \<in> set cls) g cs"
  shows "\<exists>g' rng'.
           seed_class en cls (concat cs, g, rng) =
             Inr (concat (cs @ (if en then [cls] else [])), g', rng') \<and>
           list_all2 (\<lambda>c cls. c \<in> set cls) g' (cs @ (if en then [cls] else []))"
proof (cases en)
  case False
  with assms show ?thesis by (simp add: seed_class_def)
next
  case True
  from choice_ok [OF assms(1), of rng]
  obtain c r1 where c: "choice cls rng = Inr (c, r1)" "c \<in> set cls" by blast
  have "list_all2 (\<lambda>c cls. c \<in> set cls) (g @ [c]) (cs @ [cls])"
    using assms(2) c(2) by (simp add: list_all2_appendI)
  with True c show ?thesis by (simp add: seed_class_def)
qed

lemma seed_classes_ok:
  assumes "syms \<noteq> []"
  shows "\<exists>g rng'.
           seed_classes lo up di sy syms rng =
             Inr (concat (classes_of lo up di sy syms), g, rng') \<and>
           list_all2 (\<lambda>c cls. c \<in> set cls) g (classes_of lo up di sy syms)"
proof -
  let ?P = "\<lambda>c cls. c \<in> set cls"
  let ?c1 = "if lo then [ascii_lowercase] else []"
  let ?c2 = "?c1 @ (if up then [ascii_uppercase] else [])"
  let ?c3 = "?c2 @ (if di then [digits] else [])"
  let ?c4 = "?c3 @ (if sy then [syms] else [])"
  have "list_all2 ?P [] []" by simp
  from seed_class_ok [OF classes_nonempty(1) this, of lo rng]
  obtain g1 r1 where s1:
    "seed_class lo ascii_lowercase ([], [], rng) = Inr (concat ?c1, g1, r1)"
    "list_all2 ?P g1 ?c1" by auto
  from seed_class_ok [OF classes_nonempty(2) s1(2), of up r1]
  obtain g2 r2 where s2:
    "seed_class up ascii_uppercase (concat ?c1, g1, r1) = Inr (concat ?c2, g2, r2)"
    "list_all2 ?P g2 ?c2" by auto
  from seed_class_ok [OF classes_nonempty(3) s2(2), of di r2]
  obtain g3 r3 where s3:
    "seed_class di digits (concat ?c2, g2, r2) = Inr (concat ?c3, g3, r3)"
    "list_all2 ?P g3 ?c3" by auto
  from seed_class_ok [OF assms s3(2), of sy r3]
  obtain g4 r4 where s4:
    "seed_class sy syms (concat ?c3, g3, r3) = Inr (concat ?c4, g4, r4)"
    "list_all2 ?P g4 ?c4" by auto
  have c4: "?c4 = classes_of lo up di sy syms"
    by (simp add: classes_of_def)
  have "seed_classes lo up di sy syms rng = Inr (concat ?c4, g4, r4)"
    unfolding seed_classes_def by (simp only: s1 s2 s3 s4 sum.case)
  with s4(2) show ?thesis unfolding c4 by blast
qed

lemma classes_of_concat_Nil:
  "syms \<noteq> [] \<Longrightarrow> concat (classes_of lo up di sy syms) = [] \<longleftrightarrow> classes_of lo up di sy syms = []"
  using classes_nonempty by (auto simp: classes_of_def)

lemma classes_of_Nil:
  "classes_of lo up di sy syms = [] \<longleftrightarrow> \<not> lo \<and> \<not> up \<and> \<not> di \<and> \<not> sy"
  by (simp add: classes_of_def)

lemma drawn_in_concat:
  "list_all2 (\<lambda>c cls. c \<in> set cls) g cs \<Longrightarrow> set g \<subseteq> set (concat cs)"
  by (induction g cs rule: list_all2_induct) auto

lemma drawn_covers:
  "list_all2 (\<lambda>c cls. c \<in> set cls) g cs \<Longrightarrow> cls \<in> set cs \<Longrightarrow> \<exists>c \<in> set g. c \<in> set cls"
  by (induction g cs rule: list_all2_induct) auto

lemma enabled_classes_concat:
  "enabled_classes settings \<noteq> [] \<Longrightarrow> concat (enabled_classes settings) \<noteq> []"
  unfolding enabled_classes_def
  using classes_of_concat_Nil [OF classes_nonempty(4)] by simp

section \<open>Properties of the generator of main.py\<close>

text \<open>The length is read with \<open>settings["length"]\<close>, before anything else.\<close>

lemma generate_password_no_length:
  "settings ''length'' = None \<Longrightarrow> generate_password settings rng = Inl KeyError"
  by (simp add: generate_password_def subscript_def)

text \<open>What the generator computes once the length has been read.\<close>

lemma generate_password_unfold:
  assumes "settings ''length'' = Some v"
  shows "\<exists>g rng1.
           list_all2 (\<lambda>c cls. c \<in> set cls) g (enabled_classes settings) \<and>
           generate_password settings rng =
             (if enabled_classes settings = [] then Inr (error_message, rng1)
              else
                (case as_int v of
                   Inl e \<Rightarrow> Inl e
                 | Inr n \<Rightarrow>
                     if n < int (length g) then
                       (case shuffle g rng1 of
                          (shuffled, rng2) \<Rightarrow> Inr (slice_to shuffled n, rng2))
                     else
                       (case choices (nat (n - int (length g)))
                               (concat (enabled_classes settings)) rng1 of
                          Inl e \<Rightarrow> Inl e
                        | Inr (fill, rng2) \<Rightarrow> Inr (shuffle (g @ fill) rng2))))"
proof -
  from seed_classes_ok [OF classes_nonempty(4)]
  obtain g r1 where s:
    "seed_classes (get_flag settings ''use_lower'') (get_flag settings ''use_upper'')
       (get_flag settings ''use_digits'') (get_flag settings ''use_symbols'') symbols rng =
     Inr (concat (enabled_classes settings), g, r1)"
    "list_all2 (\<lambda>c cls. c \<in> set cls) g (enabled_classes settings)"
    unfolding enabled_classes_def by blast
  have e: "concat (enabled_classes settings) = [] \<longleftrightarrow> enabled_classes settings = []"
    unfolding enabled_classes_def by (rule classes_of_concat_Nil [OF classes_nonempty(4)])
  have "generate_password settings rng =
             (if enabled_classes settings = [] then Inr (error_message, r1)
              else
                (case as_int v of
                   Inl e \<Rightarrow> Inl e
                 | Inr n \<Rightarrow>
                     if n < int (length g) then
                       (case shuffle g r1 of
                          (shuffled, rng2) \<Rightarrow> Inr (slice_to shuffled n, rng2))
                     else
                       (case choices (nat (n - int (length g)))
                               (concat (enabled_classes settings)) r1 of
                          Inl e \<Rightarrow> Inl e
                        | Inr (fill, rng2) \<Rightarrow> Inr (shuffle (g @ fill) rng2))))"
    unfolding generate_password_def subscript_def
    by (simp only: assms s option.case sum.case prod.case e)
  with s(2) show ?thesis by blast
qed

lemma generate_password_pool:
  assumes "settings ''length'' = Some (PyInt n)"
    and "enabled_classes settings \<noteq> []"
  shows "\<exists>pw rng'.
           generate_password settings rng = Inr (pw, rng') \<and>
           set pw \<subseteq> set (concat (enabled_classes settings))"
proof -
  let ?cs = "enabled_classes settings"
  from generate_password_unfold [of settings "PyInt n" rng, OF assms(1)]
  obtain g r1 where g: "list_all2 (\<lambda>c cls. c \<in> set cls) g ?cs"
    and gen0: "generate_password settings rng =
        (if ?cs = [] then Inr (error_message, r1)
         else
           (case as_int (PyInt n) of
              Inl e \<Rightarrow> Inl e
            | Inr n \<Rightarrow>
                if n < int (length g) then
                  (case shuffle g r1 of
                     (shuffled, rng2) \<Rightarrow> Inr (slice_to shuffled n, rng2))
                else
                  (case choices (nat (n - int (length g))) (concat ?cs) r1 of
                     Inl e \<Rightarrow> Inl e
                   | Inr (fill, rng2) \<Rightarrow> Inr (shuffle (g @ fill) rng2))))"
    by blast
  have len: "length g = length ?cs"
    using g by (rule list_all2_lengthD)
  have gen: "generate_password settings rng =
        (if n < int (length g) then
           (case shuffle g r1 of (shuffled, rng2) \<Rightarrow> Inr (slice_to shuffled n, rng2))
         else
           (case choices (nat (n - int (length g))) (concat ?cs) r1 of
              Inl e \<Rightarrow> Inl e
            | Inr (fill, rng2) \<Rightarrow> Inr (shuffle (g @ fill) rng2)))"
    using gen0 assms(2) by simp
  have gsub: "set g \<subseteq> set (concat ?cs)"
    using g by (rule drawn_in_concat)
  show ?thesis
  proof (cases "n < int (length g)")
    case True
    obtain sh r2 where sh: "shuffle g r1 = (sh, r2)"
      by (cases "shuffle g r1")
    have "set sh = set g"
      using sh by (rule shuffle_set)
    then have "set (slice_to sh n) \<subseteq> set (concat ?cs)"
      using gsub set_take_subset [of _ sh] unfolding slice_to_def by (auto dest: in_set_takeD)
    moreover have "generate_password settings rng = Inr (slice_to sh n, r2)"
      using gen True sh by simp
    ultimately show ?thesis by blast
  next
    case False
    from choices_ok [OF enabled_classes_concat [OF assms(2)], of "nat (n - int (length g))" r1]
    obtain fill r2 where fill:
      "choices (nat (n - int (length g))) (concat ?cs) r1 = Inr (fill, r2)"
      "set fill \<subseteq> set (concat ?cs)"
      by blast
    obtain pw r3 where sh: "shuffle (g @ fill) r2 = (pw, r3)"
      by (cases "shuffle (g @ fill) r2")
    have "set pw = set (g @ fill)"
      using sh by (rule shuffle_set)
    then have "set pw \<subseteq> set (concat ?cs)"
      using gsub fill(2) by auto
    moreover have "generate_password settings rng = Inr (pw, r3)"
      using gen False fill(1) sh by simp
    ultimately show ?thesis by blast
  qed
qed

lemma generate_password_total:
  assumes "settings ''length'' = Some (PyInt n)"
  shows "\<exists>pw rng'. generate_password settings rng = Inr (pw, rng')"
proof (cases "enabled_classes settings = []")
  case True
  from generate_password_unfold [of settings "PyInt n" rng, OF assms] True
  show ?thesis by auto
next
  case False
  from generate_password_pool [of settings n rng, OF assms False]
  show ?thesis by blast
qed

subsection \<open>Length and coverage of the classes\<close>

text \<open>
  C1. For every configuration with at least one enabled class and a length that is at
  least the number of enabled classes, the generator returns a string whose length is
  the requested length and which has a character of every enabled class, whatever the
  random draws are.
\<close>

theorem generate_password_length_and_classes:
  assumes "settings ''length'' = Some (PyInt n)"
    and "enabled_classes settings \<noteq> []"
    and "int (length (enabled_classes settings)) \<le> n"
  shows "\<exists>pw rng'.
           generate_password settings rng = Inr (pw, rng') \<and>
           int (length pw) = n \<and>
           (\<forall>cls \<in> set (enabled_classes settings). \<exists>c \<in> set pw. c \<in> set cls)"
proof -
  let ?cs = "enabled_classes settings"
  from generate_password_unfold [of settings "PyInt n" rng, OF assms(1)]
  obtain g r1 where g: "list_all2 (\<lambda>c cls. c \<in> set cls) g ?cs"
    and gen0: "generate_password settings rng =
        (if ?cs = [] then Inr (error_message, r1)
         else
           (case as_int (PyInt n) of
              Inl e \<Rightarrow> Inl e
            | Inr n \<Rightarrow>
                if n < int (length g) then
                  (case shuffle g r1 of
                     (shuffled, rng2) \<Rightarrow> Inr (slice_to shuffled n, rng2))
                else
                  (case choices (nat (n - int (length g))) (concat ?cs) r1 of
                     Inl e \<Rightarrow> Inl e
                   | Inr (fill, rng2) \<Rightarrow> Inr (shuffle (g @ fill) rng2))))"
    by blast
  have len: "length g = length ?cs"
    using g by (rule list_all2_lengthD)
  have gen: "generate_password settings rng =
        (case choices (nat (n - int (length g))) (concat ?cs) r1 of
           Inl e \<Rightarrow> Inl e
         | Inr (fill, rng2) \<Rightarrow> Inr (shuffle (g @ fill) rng2))"
    using gen0 assms(2,3) len by simp
  from choices_ok [OF enabled_classes_concat [OF assms(2)], of "nat (n - int (length g))" r1]
  obtain fill r2 where fill:
    "choices (nat (n - int (length g))) (concat ?cs) r1 = Inr (fill, r2)"
    "length fill = nat (n - int (length g))"
    by blast
  obtain pw r3 where sh: "shuffle (g @ fill) r2 = (pw, r3)"
    by (cases "shuffle (g @ fill) r2")
  have m: "mset pw = mset (g @ fill)"
    using shuffle_mset [of "g @ fill" r2] sh by simp
  have "length pw = length (g @ fill)"
    using m by (rule mset_eq_length)
  then have l: "int (length pw) = n"
    using fill(2) len assms(3) by simp
  have s: "set pw = set (g @ fill)"
    using m by (rule mset_eq_setD)
  have "\<forall>cls \<in> set ?cs. \<exists>c \<in> set pw. c \<in> set cls"
    using drawn_covers [OF g] s by auto
  moreover have "generate_password settings rng = Inr (pw, r3)"
    using gen fill(1) sh by simp
  ultimately show ?thesis using l by blast
qed

theorem generate_password_length_and_classes_witness:
  "enabled_classes (get_default_settings(''use_lower'' \<mapsto> PyBool False)) \<noteq> [] \<and>
   int (length (enabled_classes (get_default_settings(''use_lower'' \<mapsto> PyBool False)))) \<le> 16 \<and>
   (\<exists>pw rng'.
      generate_password (get_default_settings(''use_lower'' \<mapsto> PyBool False)) [7, 3, 5] =
        Inr (pw, rng') \<and>
      int (length pw) = 16 \<and>
      (\<forall>cls \<in> set (enabled_classes (get_default_settings(''use_lower'' \<mapsto> PyBool False))).
         \<exists>c \<in> set pw. c \<in> set cls))"
proof -
  let ?s = "get_default_settings(''use_lower'' \<mapsto> PyBool False)"
  have l: "?s ''length'' = Some (PyInt 16)"
    by (simp add: get_default_settings_def)
  have e: "enabled_classes ?s = [ascii_uppercase, digits, symbols]"
    by (simp add: enabled_classes_def classes_of_def get_flag_def get_default_settings_def)
  have n: "enabled_classes ?s \<noteq> []" and c: "int (length (enabled_classes ?s)) \<le> 16"
    unfolding e by simp_all
  from generate_password_length_and_classes [of ?s 16 "[7, 3, 5]", OF l n c] n c
  show ?thesis by blast
qed

subsection \<open>A length below the number of enabled classes\<close>

text \<open>
  C2, as amended. For every configuration with at least one enabled class and a length
  below the number of enabled classes, the generator returns the slice \<open>[:length]\<close>
  of a shuffle of the guaranteed characters, one drawn from each enabled class. The
  result has exactly the requested length when that is not negative; a negative length
  \<open>-k\<close> drops the last \<open>k\<close> characters instead. The result is never shorter than
  the requested length.
\<close>

theorem generate_password_truncates:
  assumes "settings ''length'' = Some (PyInt n)"
    and "enabled_classes settings \<noteq> []"
    and "n < int (length (enabled_classes settings))"
  shows "\<exists>g shuffled rng'.
           list_all2 (\<lambda>c cls. c \<in> set cls) g (enabled_classes settings) \<and>
           mset shuffled = mset g \<and>
           generate_password settings rng = Inr (slice_to shuffled n, rng') \<and>
           int (length (slice_to shuffled n)) =
             (if n < 0 then max 0 (int (length (enabled_classes settings)) + n) else n)"
proof -
  let ?cs = "enabled_classes settings"
  from generate_password_unfold [of settings "PyInt n" rng, OF assms(1)]
  obtain g r1 where g: "list_all2 (\<lambda>c cls. c \<in> set cls) g ?cs"
    and gen0: "generate_password settings rng =
        (if ?cs = [] then Inr (error_message, r1)
         else
           (case as_int (PyInt n) of
              Inl e \<Rightarrow> Inl e
            | Inr n \<Rightarrow>
                if n < int (length g) then
                  (case shuffle g r1 of
                     (shuffled, rng2) \<Rightarrow> Inr (slice_to shuffled n, rng2))
                else
                  (case choices (nat (n - int (length g))) (concat ?cs) r1 of
                     Inl e \<Rightarrow> Inl e
                   | Inr (fill, rng2) \<Rightarrow> Inr (shuffle (g @ fill) rng2))))"
    by blast
  have len: "length g = length ?cs"
    using g by (rule list_all2_lengthD)
  have gen: "generate_password settings rng =
           (case shuffle g r1 of (shuffled, rng2) \<Rightarrow> Inr (slice_to shuffled n, rng2))"
    using gen0 assms(2,3) len by simp
  obtain sh r2 where sh: "shuffle g r1 = (sh, r2)"
    by (cases "shuffle g r1")
  have m: "mset sh = mset g"
    using shuffle_mset [of g r1] sh by simp
  have "length sh = length ?cs"
    using mset_eq_length [OF m] len by simp
  then have "int (length (slice_to sh n)) = (if n < 0 then max 0 (int (length ?cs) + n) else n)"
    using assms(3) unfolding slice_to_def by auto
  moreover have "generate_password settings rng = Inr (slice_to sh n, r2)"
    using gen sh by simp
  ultimately show ?thesis using g m by blast
qed

theorem generate_password_truncates_witness:
  "enabled_classes (get_default_settings(''length'' \<mapsto> PyInt 2)) \<noteq> [] \<and>
   2 < int (length (enabled_classes (get_default_settings(''length'' \<mapsto> PyInt 2)))) \<and>
   (\<exists>g shuffled rng'.
      list_all2 (\<lambda>c cls. c \<in> set cls) g
        (enabled_classes (get_default_settings(''length'' \<mapsto> PyInt 2))) \<and>
      mset shuffled = mset g \<and>
      generate_password (get_default_settings(''length'' \<mapsto> PyInt 2)) [7, 3, 5, 11, 2, 1, 1] =
        Inr (slice_to shuffled 2, rng') \<and>
      int (length (slice_to shuffled 2)) = 2)"
proof -
  let ?s = "get_default_settings(''length'' \<mapsto> PyInt 2)"
  have l: "?s ''length'' = Some (PyInt 2)"
    by simp
  have e: "enabled_classes ?s = [ascii_lowercase, ascii_uppercase, digits, symbols]"
    by (simp add: enabled_classes_def classes_of_def get_flag_def get_default_settings_def)
  have n: "enabled_classes ?s \<noteq> []" and c: "2 < int (length (enabled_classes ?s))"
    unfolding e by simp_all
  from generate_password_truncates [of ?s 2 "[7, 3, 5, 11, 2, 1, 1]", OF l n c] n c
  show ?thesis by simp
qed

text \<open>
  The claim as it was stated has the result shorter than the requested length. With
  length 2 and all four classes the draws 7, 3, 5, 11 seed \<open>h\<close>, \<open>D\<close>, \<open>5\<close>, \<open>+\<close>,
  the draws 2, 1, 1 shuffle them to \<open>h+D5\<close>, and the result is \<open>h+\<close>, of length 2.
\<close>

theorem generate_password_not_shorter_counterexample:
  "generate_password (get_default_settings(''length'' \<mapsto> PyInt 2)) [7, 3, 5, 11, 2, 1, 1] =
     Inr (ascii ''h+'', []) \<and>
   \<not> int (length (ascii ''h+'')) < 2"
  by code_simp

subsection \<open>No class selected\<close>

text \<open>
  C4. For every configuration in which none of the four classes is enabled, the
  generator returns the fixed error message, the same for every such configuration and
  every state of the random generator, and raises nothing.
\<close>

theorem generate_password_no_class:
  assumes "settings ''length'' = Some v"
    and "enabled_classes settings = []"
  shows "generate_password settings rng = Inr (error_message, rng)"
proof -
  have off: "\<not> get_flag settings ''use_lower''" "\<not> get_flag settings ''use_upper''"
    "\<not> get_flag settings ''use_digits''" "\<not> get_flag settings ''use_symbols''"
    using assms(2) unfolding enabled_classes_def classes_of_Nil by simp_all
  have "seed_classes False False False False symbols rng = Inr ([], [], rng)"
    by (simp add: seed_classes_def seed_class_def)
  then show ?thesis
    unfolding generate_password_def subscript_def using assms(1) off by simp
qed

theorem generate_password_no_class_witness:
  "enabled_classes
     [''length'' \<mapsto> PyInt 16, ''use_upper'' \<mapsto> PyBool False, ''use_lower'' \<mapsto> PyBool False,
      ''use_digits'' \<mapsto> PyBool False, ''use_symbols'' \<mapsto> PyBool False] = [] \<and>
   generate_password
     [''length'' \<mapsto> PyInt 16, ''use_upper'' \<mapsto> PyBool False, ''use_lower'' \<mapsto> PyBool False,
      ''use_digits'' \<mapsto> PyBool False, ''use_symbols'' \<mapsto> PyBool False] [7, 3, 5] =
     Inr (error_message, [7, 3, 5])"
proof -
  let ?s = "[''length'' \<mapsto> PyInt 16, ''use_upper'' \<mapsto> PyBool False,
             ''use_lower'' \<mapsto> PyBool False, ''use_digits'' \<mapsto> PyBool False,
             ''use_symbols'' \<mapsto> PyBool False]"
  have l: "?s ''length'' = Some (PyInt 16)"
    by simp
  have e: "enabled_classes ?s = []"
    by (simp add: enabled_classes_def classes_of_def get_flag_def)
  from generate_password_no_class [of ?s "PyInt 16" "[7, 3, 5]", OF l e] e
  show ?thesis by simp
qed

subsection \<open>Every character comes from an enabled class\<close>

text \<open>
  C8. For every configuration with at least one enabled class, the generator returns a
  string, and every character of it belongs to one of the enabled classes.
\<close>

theorem generate_password_in_enabled_classes:
  assumes "settings ''length'' = Some (PyInt n)"
    and "enabled_classes settings \<noteq> []"
  shows "\<exists>pw rng'.
           generate_password settings rng = Inr (pw, rng') \<and>
           (\<forall>c \<in> set pw. \<exists>cls \<in> set (enabled_classes settings). c \<in> set cls)"
proof -
  from generate_password_pool [of settings n rng, OF assms]
  obtain pw r where pw: "generate_password settings rng = Inr (pw, r)"
    "set pw \<subseteq> set (concat (enabled_classes settings))" by blast
  have "\<forall>c \<in> set pw. \<exists>cls \<in> set (enabled_classes settings). c \<in> set cls"
  proof
    fix c assume "c \<in> set pw"
    with pw(2) have "c \<in> set (concat (enabled_classes settings))" by blast
    then show "\<exists>cls \<in> set (enabled_classes settings). c \<in> set cls" by auto
  qed
  with pw(1) show ?thesis by blast
qed

theorem generate_password_in_enabled_classes_witness:
  "enabled_classes [''length'' \<mapsto> PyInt 3, ''use_upper'' \<mapsto> PyBool False,
      ''use_lower'' \<mapsto> PyBool False, ''use_digits'' \<mapsto> PyBool True,
      ''use_symbols'' \<mapsto> PyBool False] = [digits] \<and>
   (\<exists>pw rng'.
      generate_password [''length'' \<mapsto> PyInt 3, ''use_upper'' \<mapsto> PyBool False,
        ''use_lower'' \<mapsto> PyBool False, ''use_digits'' \<mapsto> PyBool True,
        ''use_symbols'' \<mapsto> PyBool False] [7, 3, 5] = Inr (pw, rng') \<and>
      (\<forall>c \<in> set pw. c \<in> set digits))"
proof -
  let ?s = "[''length'' \<mapsto> PyInt 3, ''use_upper'' \<mapsto> PyBool False,
      ''use_lower'' \<mapsto> PyBool False, ''use_digits'' \<mapsto> PyBool True,
      ''use_symbols'' \<mapsto> PyBool False]"
  have l: "?s ''length'' = Some (PyInt 3)"
    by simp
  have e: "enabled_classes ?s = [digits]"
    by (simp add: enabled_classes_def classes_of_def get_flag_def)
  then have n: "enabled_classes ?s \<noteq> []"
    by simp
  from generate_password_in_enabled_classes [of ?s 3 "[7, 3, 5]", OF l n] e
  show ?thesis by simp
qed

subsection \<open>Missing flags\<close>

text \<open>
  C9. The generator of \<open>main.py\<close> raises nothing on a configuration that lacks flag
  keys: it returns a string, and a missing flag has the effect of a flag that is
  \<open>False\<close>.
\<close>

theorem generate_password_missing_flags:
  assumes "settings ''length'' = Some (PyInt n)"
  shows "(\<exists>pw rng'. generate_password settings rng = Inr (pw, rng')) \<and>
         (\<forall>k \<in> flag_keys. settings k = None \<longrightarrow>
            generate_password settings rng =
              generate_password (settings(k \<mapsto> PyBool False)) rng)"
proof
  show "\<exists>pw rng'. generate_password settings rng = Inr (pw, rng')"
    using assms by (rule generate_password_total)
next
  show "\<forall>k \<in> flag_keys. settings k = None \<longrightarrow>
            generate_password settings rng =
              generate_password (settings(k \<mapsto> PyBool False)) rng"
  proof (intro ballI impI)
    fix k assume k: "k \<in> flag_keys" and none: "settings k = None"
    let ?s = "settings(k \<mapsto> PyBool False)"
    have f: "get_flag ?s k' = get_flag settings k'" for k'
      using none by (simp add: get_flag_def)
    have "k \<noteq> ''length''"
      using k by (auto simp: flag_keys_def)
    then have "subscript ?s ''length'' = subscript settings ''length''"
      by (simp add: subscript_def)
    then show "generate_password settings rng = generate_password ?s rng"
      unfolding generate_password_def by (simp only: f)
  qed
qed

theorem generate_password_missing_flags_witness:
  "(\<exists>pw rng'.
      generate_password [''length'' \<mapsto> PyInt 8, ''use_digits'' \<mapsto> PyBool True] [7, 3, 5] =
        Inr (pw, rng')) \<and>
   generate_password [''length'' \<mapsto> PyInt 8, ''use_digits'' \<mapsto> PyBool True] [7, 3, 5] =
     generate_password
       [''length'' \<mapsto> PyInt 8, ''use_digits'' \<mapsto> PyBool True, ''use_upper'' \<mapsto> PyBool False]
       [7, 3, 5]"
proof -
  let ?s = "[''length'' \<mapsto> PyInt 8, ''use_digits'' \<mapsto> PyBool True]"
  have l: "?s ''length'' = Some (PyInt 8)"
    by simp
  have k: "''use_upper'' \<in> flag_keys" and m: "?s ''use_upper'' = None"
    by (simp_all add: flag_keys_def)
  from generate_password_missing_flags [of ?s 8 "[7, 3, 5]", OF l] k m
  show ?thesis by blast
qed

section \<open>Properties of the generator of telegram_password_bot.py\<close>

text \<open>What this generator computes once the length and the four flags have been read.\<close>

lemma generate_password_bot_unfold:
  assumes "settings ''length'' = Some v" and "flag_keys \<subseteq> dom settings"
  shows "\<exists>g rng1.
           list_all2 (\<lambda>c cls. c \<in> set cls) g (enabled_classes_bot settings) \<and>
           generate_password_bot settings rng =
             (if enabled_classes_bot settings = [] then Inr (error_message, rng1)
              else
                (case as_int v of
                   Inl e \<Rightarrow> Inl e
                 | Inr n \<Rightarrow>
                     (case choices (nat (n - int (length g)))
                             (concat (enabled_classes_bot settings)) rng1 of
                        Inl e \<Rightarrow> Inl e
                      | Inr (fill, rng2) \<Rightarrow> Inr (shuffle (g @ fill) rng2))))"
proof -
  from assms(2) obtain lo up di sy where flags:
    "settings ''use_lower'' = Some lo" "settings ''use_upper'' = Some up"
    "settings ''use_digits'' = Some di" "settings ''use_symbols'' = Some sy"
    unfolding flag_keys_def by auto
  have gf: "get_flag settings ''use_lower'' = truthy lo" "get_flag settings ''use_upper'' = truthy up"
    "get_flag settings ''use_digits'' = truthy di" "get_flag settings ''use_symbols'' = truthy sy"
    using flags by (simp_all add: get_flag_def)
  have cs: "enabled_classes_bot settings =
              classes_of (truthy lo) (truthy up) (truthy di) (truthy sy) symbols_bot"
    unfolding enabled_classes_bot_def gf ..
  from seed_classes_ok [OF classes_nonempty(5), of "truthy lo" "truthy up" "truthy di" "truthy sy" rng]
  obtain g r1 where s:
    "seed_classes (truthy lo) (truthy up) (truthy di) (truthy sy) symbols_bot rng =
     Inr (concat (enabled_classes_bot settings), g, r1)"
    "list_all2 (\<lambda>c cls. c \<in> set cls) g (enabled_classes_bot settings)"
    unfolding cs by blast
  have e: "concat (enabled_classes_bot settings) = [] \<longleftrightarrow> enabled_classes_bot settings = []"
    unfolding enabled_classes_bot_def by (rule classes_of_concat_Nil [OF classes_nonempty(5)])
  have seed: "generate_password_bot settings rng =
     (case seed_classes (truthy lo) (truthy up) (truthy di) (truthy sy) symbols_bot rng of
        Inl e \<Rightarrow> Inl e
      | Inr (character_pool, guaranteed_chars, rng1) \<Rightarrow>
          if character_pool = [] then Inr (error_message, rng1)
          else
            (case as_int v of
               Inl e \<Rightarrow> Inl e
             | Inr n \<Rightarrow>
                 (case choices (nat (n - int (length guaranteed_chars)))
                         character_pool rng1 of
                    Inl e \<Rightarrow> Inl e
                  | Inr (fill, rng2) \<Rightarrow>
                      Inr (shuffle (guaranteed_chars @ fill) rng2))))"
    unfolding generate_password_bot_def seed_classes_def subscript_def
    by (simp add: assms(1) flags split: sum.splits)
  have "generate_password_bot settings rng =
             (if enabled_classes_bot settings = [] then Inr (error_message, r1)
              else
                (case as_int v of
                   Inl e \<Rightarrow> Inl e
                 | Inr n \<Rightarrow>
                     (case choices (nat (n - int (length g)))
                             (concat (enabled_classes_bot settings)) r1 of
                        Inl e \<Rightarrow> Inl e
                      | Inr (fill, rng2) \<Rightarrow> Inr (shuffle (g @ fill) rng2))))"
    unfolding seed by (simp only: s sum.case prod.case e)
  with s(2) show ?thesis by blast
qed

text \<open>
  C10. In \<open>telegram_password_bot.py\<close>, for every configuration with at least one enabled
  class and a length below the number of enabled classes, the generator returns a
  shuffle of the guaranteed characters, one drawn from each enabled class, and nothing
  else: the length of the result is the number of enabled classes, which is more than
  the requested length.
\<close>

theorem generate_password_bot_no_truncation:
  assumes "settings ''length'' = Some (PyInt n)"
    and "flag_keys \<subseteq> dom settings"
    and "enabled_classes_bot settings \<noteq> []"
    and "n < int (length (enabled_classes_bot settings))"
  shows "\<exists>pw g rng'.
           generate_password_bot settings rng = Inr (pw, rng') \<and>
           list_all2 (\<lambda>c cls. c \<in> set cls) g (enabled_classes_bot settings) \<and>
           mset pw = mset g \<and>
           length pw = length (enabled_classes_bot settings) \<and>
           n < int (length pw)"
proof -
  let ?cs = "enabled_classes_bot settings"
  from generate_password_bot_unfold [of settings "PyInt n" rng, OF assms(1,2)]
  obtain g r1 where g: "list_all2 (\<lambda>c cls. c \<in> set cls) g ?cs"
    and gen0: "generate_password_bot settings rng =
        (if ?cs = [] then Inr (error_message, r1)
         else
           (case as_int (PyInt n) of
              Inl e \<Rightarrow> Inl e
            | Inr n \<Rightarrow>
                (case choices (nat (n - int (length g))) (concat ?cs) r1 of
                   Inl e \<Rightarrow> Inl e
                 | Inr (fill, rng2) \<Rightarrow> Inr (shuffle (g @ fill) rng2))))"
    by blast
  have len: "length g = length ?cs"
    using g by (rule list_all2_lengthD)
  then have "nat (n - int (length g)) = 0"
    using assms(4) by simp
  then have gen: "generate_password_bot settings rng = Inr (shuffle g r1)"
    using gen0 assms(3) by simp
  obtain pw r2 where sh: "shuffle g r1 = (pw, r2)"
    by (cases "shuffle g r1")
  have m: "mset pw = mset g"
    using shuffle_mset [of g r1] sh by simp
  have l: "length pw = length ?cs"
    using mset_eq_length [OF m] len by simp
  with assms(4) have "n < int (length pw)"
    by simp
  with gen sh g m l show ?thesis by auto
qed

theorem generate_password_bot_no_truncation_witness:
  "flag_keys \<subseteq> dom (get_default_settings(''length'' \<mapsto> PyInt 2)) \<and>
   enabled_classes_bot (get_default_settings(''length'' \<mapsto> PyInt 2)) =
     [ascii_lowercase, ascii_uppercase, digits, symbols_bot] \<and>
   (\<exists>pw g rng'.
      generate_password_bot (get_default_settings(''length'' \<mapsto> PyInt 2))
        [7, 3, 5, 11, 2, 1, 1] = Inr (pw, rng') \<and>
      list_all2 (\<lambda>c cls. c \<in> set cls) g
        (enabled_classes_bot (get_default_settings(''length'' \<mapsto> PyInt 2))) \<and>
      mset pw = mset g \<and>
      length pw = length (enabled_classes_bot (get_default_settings(''length'' \<mapsto> PyInt 2))) \<and>
      2 < int (length pw))"
proof -
  let ?s = "get_default_settings(''length'' \<mapsto> PyInt 2)"
  have l: "?s ''length'' = Some (PyInt 2)"
    by simp
  have k: "flag_keys \<subseteq> dom ?s"
    by (simp add: flag_keys_def get_default_settings_def)
  have e: "enabled_classes_bot ?s = [ascii_lowercase, ascii_uppercase, digits, symbols_bot]"
    by (simp add: enabled_classes_bot_def classes_of_def get_flag_def get_default_settings_def)
  have n: "enabled_classes_bot ?s \<noteq> []" and c: "2 < int (length (enabled_classes_bot ?s))"
    unfolding e by simp_all
  from generate_password_bot_no_truncation [of ?s 2 "[7, 3, 5, 11, 2, 1, 1]", OF l k n c] k e
  show ?thesis by blast
qed

section \<open>Properties of the settings table\<close>

lemma get_user_config_present:
  "tbl (str user_id) = Some config \<Longrightarrow> get_user_config user_id tbl = (config, tbl)"
  by (simp add: get_user_config_def)

lemma get_user_config_stored:
  "get_user_config user_id tbl = (config, tbl') \<Longrightarrow> tbl' (str user_id) = Some config"
  by (auto simp: get_user_config_def split: option.splits)

text \<open>
  C6. For a user who is not in the table, \<open>get_user_config\<close> stores and returns the
  default configuration, which has length 16 and the four flags true; for a user who is
  in the table it returns the stored configuration and leaves the table as it is.
\<close>

theorem get_user_config_first_contact:
  "(tbl (str user_id) = None \<longrightarrow>
      get_user_config user_id tbl =
        (get_default_settings, tbl(str user_id \<mapsto> get_default_settings)) \<and>
      get_default_settings ''length'' = Some (PyInt 16) \<and>
      get_default_settings ''use_upper'' = Some (PyBool True) \<and>
      get_default_settings ''use_lower'' = Some (PyBool True) \<and>
      get_default_settings ''use_digits'' = Some (PyBool True) \<and>
      get_default_settings ''use_symbols'' = Some (PyBool True)) \<and>
   (\<forall>config. tbl (str user_id) = Some config \<longrightarrow>
      get_user_config user_id tbl = (config, tbl))"
  by (simp add: get_user_config_def get_default_settings_def)

theorem get_user_config_first_contact_witness:
  "fst (get_user_config 7 Map.empty) ''length'' = Some (PyInt 16) \<and>
   fst (get_user_config 7 Map.empty) ''use_upper'' = Some (PyBool True) \<and>
   fst (get_user_config 7 Map.empty) ''use_lower'' = Some (PyBool True) \<and>
   fst (get_user_config 7 Map.empty) ''use_digits'' = Some (PyBool True) \<and>
   fst (get_user_config 7 Map.empty) ''use_symbols'' = Some (PyBool True) \<and>
   get_user_config 7 [str 7 \<mapsto> [''length'' \<mapsto> PyInt 5]] =
     ([''length'' \<mapsto> PyInt 5], [str 7 \<mapsto> [''length'' \<mapsto> PyInt 5]])"
proof -
  have a: "(Map.empty :: table) (str 7) = None"
    by simp
  have b: "[str 7 \<mapsto> [''length'' \<mapsto> PyInt 5]] (str 7) = Some [''length'' \<mapsto> PyInt 5]"
    by simp
  from get_user_config_first_contact [of Map.empty 7] a
    get_user_config_first_contact [of "[str 7 \<mapsto> [''length'' \<mapsto> PyInt 5]]" 7] b
  show ?thesis by simp
qed

section \<open>Properties of loading and saving\<close>

text \<open>
  A missing file gives the empty table, silently; a file that is not JSON gives the
  empty table and a log record; a failed write is logged by \<open>save_user_settings\<close>.
\<close>

lemma load_user_settings_missing:
  "\<not> file_exists f \<Longrightarrow> load_user_settings f = (Inr Map.empty, [])"
  by (simp add: load_user_settings_def)

lemma load_user_settings_json_error:
  "file_exists f \<Longrightarrow> open_result f = None \<Longrightarrow> json_load_result f = Inl JSONDecodeError \<Longrightarrow>
   load_user_settings f = (Inr Map.empty, [JsonDecodeErrorLogged])"
  by (simp add: load_user_settings_def)

lemma save_user_settings_write_error:
  "save_user_settings settings (Some OSError) = (Inr None, [WriteErrorLogged])"
  by (simp add: save_user_settings_def)

text \<open>
  C5 has every failure of the load logged and answered with the empty table. The
  \<open>except\<close> clause of \<open>load_user_settings\<close> names \<open>JSONDecodeError\<close> only: when the file
  exists and \<open>open\<close> raises \<open>OSError\<close> (no permission, a directory), or the bytes are
  not UTF-8, the exception leaves the function and nothing is logged.
\<close>

theorem load_user_settings_propagates:
  "load_user_settings
     \<lparr>file_exists = True, open_result = Some OSError, json_load_result = Inr Map.empty\<rparr> =
     (Inl OSError, []) \<and>
   load_user_settings
     \<lparr>file_exists = True, open_result = None, json_load_result = Inl UnicodeDecodeError\<rparr> =
     (Inl UnicodeDecodeError, [])"
  by (simp add: load_user_settings_def)

section \<open>Properties of the button handler\<close>

lemma build_menu_table:
  "user_settings b (str user_id) = Some config \<Longrightarrow>
   user_settings (snd (build_menu user_id message_text b)) = user_settings b"
  by (simp add: build_menu_def get_user_config_present split: sum.splits)

lemma save_and_show_table:
  "user_settings b (str user_id) = Some config \<Longrightarrow>
   user_settings (snd (save_and_show user_id message_text b)) = user_settings b"
  by (simp add: save_and_show_def build_menu_table split: prod.splits sum.splits option.splits)

lemma toggle_table:
  assumes "user_settings b (str user_id) = Some config"
  shows "user_settings (snd (toggle key user_id config b)) = user_settings b \<or>
         (\<exists>v. user_settings (snd (toggle key user_id config b)) =
                (user_settings b)(str user_id \<mapsto> config(key \<mapsto> v)))"
proof (cases "subscript config key")
  case (Inl e)
  then show ?thesis by (simp add: toggle_def)
next
  case (Inr v)
  let ?b = "b\<lparr>user_settings :=
                 (user_settings b)(str user_id \<mapsto> config(key \<mapsto> PyBool (\<not> truthy v)))\<rparr>"
  have "user_settings ?b (str user_id) = Some (config(key \<mapsto> PyBool (\<not> truthy v)))"
    by simp
  from save_and_show_table [OF this, of SettingsChanged]
  show ?thesis using Inr by (auto simp: toggle_def)
qed

lemma action_names:
  "GENERATE \<noteq> LEN_INCR" "GENERATE \<noteq> LEN_DECR" "GENERATE \<noteq> TOGGLE_UPPER"
  "GENERATE \<noteq> TOGGLE_LOWER" "GENERATE \<noteq> TOGGLE_DIGITS" "GENERATE \<noteq> TOGGLE_SYMBOLS"
  by (simp_all add: GENERATE_def LEN_INCR_def LEN_DECR_def TOGGLE_UPPER_def TOGGLE_LOWER_def
      TOGGLE_DIGITS_def TOGGLE_SYMBOLS_def)

text \<open>
  C7. Handling the \<open>generate\<close> button leaves the table as \<open>get_user_config\<close> returned it
  at the start of the handler; for a user who already has a configuration, the table is
  unchanged, and so is every field of the configuration.
\<close>

theorem generate_keeps_config:
  "user_settings (snd (button_callback GENERATE user_id b)) =
     snd (get_user_config user_id (user_settings b)) \<and>
   (\<forall>config. user_settings b (str user_id) = Some config \<longrightarrow>
      user_settings (snd (button_callback GENERATE user_id b)) = user_settings b \<and>
      user_settings (snd (button_callback GENERATE user_id b)) (str user_id) = Some config)"
proof -
  obtain config tbl where c: "get_user_config user_id (user_settings b) = (config, tbl)"
    by (cases "get_user_config user_id (user_settings b)")
  have k: "tbl (str user_id) = Some config"
    using c by (rule get_user_config_stored)
  have main: "user_settings (snd (button_callback GENERATE user_id b)) = tbl"
  proof (cases "generate_password config (random_state b)")
    case (Inl e)
    then show ?thesis
      by (simp add: button_callback_def c action_names)
  next
    case (Inr r)
    obtain password rng' where r: "r = (password, rng')" by (cases r)
    let ?b = "b\<lparr>user_settings := tbl, random_state := rng',
                 outbox := outbox b @ [PasswordMessage password]\<rparr>"
    have "user_settings ?b (str user_id) = Some config"
      using k by simp
    from save_and_show_table [OF this, of NewSettings]
    show ?thesis using Inr r
      by (simp add: button_callback_def c action_names)
  qed
  show ?thesis
  proof (intro conjI allI impI)
    show "user_settings (snd (button_callback GENERATE user_id b)) =
            snd (get_user_config user_id (user_settings b))"
      using main c by simp
  next
    fix config' assume p: "user_settings b (str user_id) = Some config'"
    then have "get_user_config user_id (user_settings b) = (config', user_settings b)"
      by (rule get_user_config_present)
    with c have "tbl = user_settings b" by simp
    with main show "user_settings (snd (button_callback GENERATE user_id b)) = user_settings b"
      by simp
    with p show "user_settings (snd (button_callback GENERATE user_id b)) (str user_id) = Some config'"
      by simp
  qed
qed

theorem generate_keeps_config_witness:
  "user_settings (bot_with 7 get_default_settings) (str 7) = Some get_default_settings \<and>
   user_settings (snd (button_callback GENERATE 7 (bot_with 7 get_default_settings))) (str 7) =
     Some get_default_settings"
proof -
  have h: "user_settings (bot_with 7 get_default_settings) (str 7) = Some get_default_settings"
    by (simp add: bot_with_def)
  from generate_keeps_config [of 7 "bot_with 7 get_default_settings"] h
  show ?thesis by blast
qed

lemma length_in_range_iff:
  "length_in_range user_id b \<longleftrightarrow>
     (\<exists>config n. user_settings b (str user_id) = Some config \<and>
        config ''length'' = Some (PyInt n) \<and> 4 \<le> n \<and> n \<le> 64)"
  by (auto simp: length_in_range_def split: option.splits pyval.splits)

lemma length_in_range_table:
  "user_settings b' = user_settings b \<Longrightarrow> length_in_range user_id b' = length_in_range user_id b"
  by (simp add: length_in_range_def)

lemma button_callback_length_in_range:
  assumes "length_in_range user_id b"
  shows "length_in_range user_id (snd (button_callback action user_id b))"
proof -
  from assms obtain config n where c: "user_settings b (str user_id) = Some config"
    and l: "config ''length'' = Some (PyInt n)" and n: "4 \<le> n" "n \<le> 64"
    unfolding length_in_range_iff by blast
  have g: "get_user_config user_id (user_settings b) = (config, user_settings b)"
    using c by (rule get_user_config_present)
  have b: "b\<lparr>user_settings := user_settings b\<rparr> = b" by simp
  have upd: "length_in_range user_id (snd (save_and_show user_id t
               (b\<lparr>user_settings := (user_settings b)(str user_id \<mapsto> config(''length'' \<mapsto> PyInt m))\<rparr>)))"
    if "4 \<le> m" "m \<le> 64" for m t
  proof -
    let ?b = "b\<lparr>user_settings := (user_settings b)(str user_id \<mapsto> config(''length'' \<mapsto> PyInt m))\<rparr>"
    have s: "user_settings ?b (str user_id) = Some (config(''length'' \<mapsto> PyInt m))" by simp
    have "length_in_range user_id ?b"
      unfolding length_in_range_iff using that by simp
    with length_in_range_table [OF save_and_show_table [OF s, of t]] show ?thesis by simp
  qed
  have tog: "length_in_range user_id (snd (toggle key user_id config b))" if "key \<noteq> ''length''" for key
  proof -
    from toggle_table [OF c, of key]
    consider "user_settings (snd (toggle key user_id config b)) = user_settings b"
      | v where "user_settings (snd (toggle key user_id config b)) =
                (user_settings b)(str user_id \<mapsto> config(key \<mapsto> v))"
      by blast
    then show ?thesis
    proof cases
      case 1
      from length_in_range_table [OF this] assms show ?thesis by simp
    next
      case 2
      then show ?thesis
        unfolding length_in_range_iff using l n that by simp
    qed
  qed
  have gen: "length_in_range user_id (snd (button_callback GENERATE user_id b))"
  proof -
    have "user_settings (snd (button_callback GENERATE user_id b)) = user_settings b"
    proof (cases "generate_password config (random_state b)")
      case (Inl e)
      then show ?thesis
        by (simp add: button_callback_def g action_names)
    next
      case (Inr r)
      obtain password rng' where r: "r = (password, rng')" by (cases r)
      let ?b = "b\<lparr>random_state := rng', outbox := outbox b @ [PasswordMessage password]\<rparr>"
      have "user_settings ?b (str user_id) = Some config"
        using c by simp
      from save_and_show_table [OF this, of NewSettings]
      show ?thesis using Inr r
        by (simp add: button_callback_def g action_names)
    qed
    from length_in_range_table [OF this] assms show ?thesis by simp
  qed
  have incr: "4 \<le> min 64 (n + 1)" "min 64 (n + 1) \<le> 64"
    and decr: "4 \<le> max 4 (n - 1)" "max 4 (n - 1) \<le> 64"
    using n by simp_all
  show ?thesis
  proof (cases "action = GENERATE")
    case True
    with gen show ?thesis by simp
  next
    case False
    then show ?thesis
      using upd [OF incr] upd [OF decr] tog assms
      by (simp add: button_callback_def g subscript_def l Let_def)
  qed
qed

text \<open>
  A generation that raises in the comparison has made the four seeding draws; one that
  raises at the missing length has made none.
\<close>

lemma generate_raises_after_seeding:
  "fst (button_callback GENERATE 7
          (bot_with 7 (get_default_settings(''length'' \<mapsto> PyStr (ascii ''16''))))) =
     Inl TypeError"
  "random_state (snd (button_callback GENERATE 7
          (bot_with 7 (get_default_settings(''length'' \<mapsto> PyStr (ascii ''16'')))))) =
     [2, 1, 1]"
  "random_state (snd (button_callback GENERATE 7
          (bot_with 7 [''use_lower'' \<mapsto> PyBool True]))) = [7, 3, 5, 11, 2, 1, 1]"
  by code_simp+

text \<open>
  A user's first press creates the default configuration, whose length is 16, so the
  range holds from the first contact on.
\<close>

lemma button_callback_first_contact:
  assumes "user_settings b (str user_id) = None"
  shows "length_in_range user_id (snd (button_callback action user_id b))"
proof -
  let ?tbl = "(user_settings b)(str user_id \<mapsto> get_default_settings)"
  let ?b = "b\<lparr>user_settings := ?tbl\<rparr>"
  have g: "get_user_config user_id (user_settings b) = (get_default_settings, ?tbl)"
    using assms by (simp add: get_user_config_def)
  have g': "get_user_config user_id (user_settings ?b) = (get_default_settings, ?tbl)"
    by (simp add: get_user_config_def)
  have same: "button_callback action user_id b = button_callback action user_id ?b"
    unfolding button_callback_def g g' by simp
  have "length_in_range user_id ?b"
    unfolding length_in_range_iff by (simp add: get_default_settings_def)
  then have "length_in_range user_id (snd (button_callback action user_id ?b))"
    by (rule button_callback_length_in_range)
  with same show ?thesis by simp
qed

text \<open>At the bounds: three increments from 63 stop at 64, two decrements from 5 at 4.\<close>

lemma press_clamps:
  "stored_length 7
     (press [LEN_INCR, LEN_INCR, LEN_INCR] 7
        (bot_with 7 (get_default_settings(''length'' \<mapsto> PyInt 63)))) = Some (PyInt 64)"
  "stored_length 7
     (press [LEN_DECR, LEN_DECR] 7
        (bot_with 7 (get_default_settings(''length'' \<mapsto> PyInt 5)))) = Some (PyInt 4)"
  by code_simp+

text \<open>
  C3. For every configuration (a UserConfig: its length is an integer between 4 and 64)
  and every finite sequence of button presses applied to it, sequences of increments and
  decrements among them, the resulting length is an integer between 4 and 64: no
  repetition of increments or decrements drives the length out of the range.
\<close>

theorem press_length_in_range:
  assumes "length_in_range user_id b"
  shows "length_in_range user_id (press actions user_id b)"
  using assms
proof (induction actions arbitrary: b)
  case Nil
  then show ?case by simp
next
  case (Cons action actions)
  from Cons.prems have "length_in_range user_id (snd (button_callback action user_id b))"
    by (rule button_callback_length_in_range)
  then show ?case using Cons.IH by simp
qed

theorem press_length_in_range_witness:
  "length_in_range 7 (bot_with 7 (get_default_settings(''length'' \<mapsto> PyInt 63))) \<and>
   length_in_range 7
     (press [LEN_INCR, LEN_INCR, LEN_INCR, LEN_DECR] 7
        (bot_with 7 (get_default_settings(''length'' \<mapsto> PyInt 63))))"
proof -
  have h: "length_in_range 7 (bot_with 7 (get_default_settings(''length'' \<mapsto> PyInt 63)))"
    by code_simp
  from press_length_in_range [OF h, of "[LEN_INCR, LEN_INCR, LEN_INCR, LEN_DECR]"] h
  show ?thesis by simp
qed

end
